theory Spec2Isabelle
  imports Complex_Main "HOL-Library.Sublist" "HOL-Library.Multiset"
begin

section \<open>Numbers\<close>

text \<open>
  The Python sources compute with IEEE floating-point numbers (Python floats and numpy
  arrays).  The embedding uses the real numbers for every finite value, so rounding is
  not modelled.  What numpy does where a real quotient does not exist is written out:
  a division by zero of array values yields an infinity or a NaN (with a warning, not an
  exception), and every ordering comparison with a NaN is false.
\<close>

datatype py_error = ZeroDivisionError | IndexError | ValueError | CvError

datatype npfloat = Finite real | PosInf | NegInf | NaN

definition np_divide :: "real \<Rightarrow> real \<Rightarrow> npfloat" where
  "np_divide a b =
     (if b \<noteq> 0 then Finite (a / b)
      else if 0 < a then PosInf
      else if a < 0 then NegInf
      else NaN)"

fun np_le :: "npfloat \<Rightarrow> real \<Rightarrow> bool" where
  "np_le (Finite v) t = (v \<le> t)"
| "np_le PosInf t = False"
| "np_le NegInf t = True"
| "np_le NaN t = False"

definition np_mean :: "real list \<Rightarrow> real" where
  "np_mean xs = sum_list xs / real (length xs)"

text \<open>Python's \<open>int(x)\<close> on a float truncates towards zero.\<close>

definition py_int :: "real \<Rightarrow> int" where
  "py_int x = (if 0 \<le> x then \<lfloor>x\<rfloor> else \<lceil>x\<rceil>)"

text \<open>Python's \<open>xs[-n:]\<close> for a positive \<open>n\<close>: the last \<open>n\<close> elements, or all of them.\<close>

definition last_n :: "nat \<Rightarrow> 'a list \<Rightarrow> 'a list" where
  "last_n n xs = drop (length xs - n) xs"


section \<open>Self-calibration (vision\_processor.py)\<close>

text \<open>
  The fields of \<open>VisionProcessor\<close> that \<open>process_frame\<close>, \<open>get_performance_stats\<close> and
  \<open>self_calibrate\<close> read and write.
\<close>

record VisionProcessor =
  confidence_threshold :: real
  processing_times :: "real list"
  detection_confidences :: "real list"

definition DETECTION_CONFIDENCE_THRESHOLD :: real where
  "DETECTION_CONFIDENCE_THRESHOLD = 0.5"

definition PERFORMANCE_WINDOW :: nat where
  "PERFORMANCE_WINDOW = 100"

definition VisionProcessor_init :: VisionProcessor where
  "VisionProcessor_init =
     \<lparr>confidence_threshold = DETECTION_CONFIDENCE_THRESHOLD,
      processing_times = [],
      detection_confidences = []\<rparr>"

record performance_stats =
  avg_processing_time :: real
  min_processing_time :: real
  max_processing_time :: real
  avg_confidence :: real
  total_frames_processed :: nat

definition get_performance_stats :: "VisionProcessor \<Rightarrow> performance_stats" where
  "get_performance_stats s =
     (let stats = \<lparr>avg_processing_time = 0, min_processing_time = 0,
                   max_processing_time = 0, avg_confidence = 0,
                   total_frames_processed = length (processing_times s)\<rparr>;
          stats = (if processing_times s \<noteq> []
                   then stats\<lparr>avg_processing_time := np_mean (processing_times s),
                              min_processing_time := Min (set (processing_times s)),
                              max_processing_time := Max (set (processing_times s))\<rparr>
                   else stats);
          stats = (if detection_confidences s \<noteq> []
                   then stats\<lparr>avg_confidence := np_mean (detection_confidences s)\<rparr>
                   else stats)
      in stats)"

definition self_calibrate :: "VisionProcessor \<Rightarrow> VisionProcessor" where
  "self_calibrate s =
     (let stats = get_performance_stats s;
          s = (if avg_confidence stats < 0.4
               then s\<lparr>confidence_threshold := max 0.3 (confidence_threshold s - 0.05)\<rparr>
               else if avg_confidence stats > 0.9
               then s\<lparr>confidence_threshold := min 0.8 (confidence_threshold s + 0.05)\<rparr>
               else s)
      in if length (processing_times s) > PERFORMANCE_WINDOW
         then s\<lparr>processing_times := last_n PERFORMANCE_WINDOW (processing_times s),
                detection_confidences := last_n PERFORMANCE_WINDOW (detection_confidences s)\<rparr>
         else s)"






section \<open>Motion gate (smart\_observer.py)\<close>

text \<open>
  \<open>SmartObserver.detect_motion\<close> keeps the previous low-resolution gray frame.  The
  conversion of a camera frame (gray scale, Gaussian blur, resize to \<open>320 x 240\<close>) is
  OpenCV's and enters as the parameter \<open>to_gray\<close>; a gray frame is its list of pixel
  intensities.
\<close>

record SmartObserver =
  prev_frame :: "nat list option"
  frame_count :: nat

definition SmartObserver_init :: SmartObserver where
  "SmartObserver_init = \<lparr>prev_frame = None, frame_count = 0\<rparr>"

definition MOTION_THRESHOLD :: real where
  "MOTION_THRESHOLD = 3.0"

definition absdiff :: "nat list \<Rightarrow> nat list \<Rightarrow> nat list" where
  "absdiff a b = map2 (\<lambda>p q. if p \<le> q then q - p else p - q) a b"

definition threshold_binary :: "nat list \<Rightarrow> nat \<Rightarrow> nat \<Rightarrow> nat list" where
  "threshold_binary src thresh maxval = map (\<lambda>v. if v > thresh then maxval else 0) src"

definition detect_motion ::
  "('frame \<Rightarrow> nat list) \<Rightarrow> 'frame \<Rightarrow> SmartObserver \<Rightarrow> real \<times> SmartObserver" where
  "detect_motion to_gray frame s =
     (let gray = to_gray frame
      in case prev_frame s of
           None \<Rightarrow> (0.0, s\<lparr>prev_frame := Some gray\<rparr>)
         | Some prev \<Rightarrow>
             (let diff = absdiff prev gray;
                  thresh = threshold_binary diff 25 255;
                  motion_pct =
                    (real (length (filter (\<lambda>v. v > 0) thresh)) / real (length thresh)) * 100
              in (motion_pct, s\<lparr>prev_frame := Some gray\<rparr>)))"

text \<open>
  The main loop skips detection when \<open>motion < MOTION_THRESHOLD\<close>; otherwise the frame
  counts as motion.
\<close>

definition has_motion :: "real \<Rightarrow> bool" where
  "has_motion motion = (\<not> motion < MOTION_THRESHOLD)"


text \<open>
  \<open>VisionProcessor.detect_motion\<close> (vision\_processor.py) keeps no previous frame of its
  own.  It asks OpenCV's background subtractor for the foreground mask of the frame and
  reports the percentage of nonzero mask pixels, and motion when the percentage exceeds
  \<open>1.0\<close>; any exception gives \<open>(False, 0.0)\<close>.  The subtractor and its history are
  OpenCV's: what \<open>background_subtractor.apply(frame)\<close> returns or raises is the input.
  The quotient is a numpy division, so an empty mask gives NaN.
\<close>

fun np_times :: "npfloat \<Rightarrow> real \<Rightarrow> npfloat" where
  "np_times (Finite v) c = Finite (v * c)"
| "np_times PosInf c = (if 0 < c then PosInf else if c < 0 then NegInf else NaN)"
| "np_times NegInf c = (if 0 < c then NegInf else if c < 0 then PosInf else NaN)"
| "np_times NaN c = NaN"

fun np_gt :: "npfloat \<Rightarrow> real \<Rightarrow> bool" where
  "np_gt (Finite v) t = (v > t)"
| "np_gt PosInf t = True"
| "np_gt NegInf t = False"
| "np_gt NaN t = False"

definition vp_detect_motion :: "py_error + nat list \<Rightarrow> bool \<times> npfloat" where
  "vp_detect_motion applied =
     (case applied of
        Inl e \<Rightarrow> (False, Finite 0.0)
      | Inr fg_mask \<Rightarrow>
          (let motion_pixels = length (filter (\<lambda>v. v > 0) fg_mask);
               total_pixels = length fg_mask;
               motion_percentage =
                 np_times (np_divide (real motion_pixels) (real total_pixels)) 100;
               motion_flag = np_gt motion_percentage 1.0
           in (motion_flag, motion_percentage)))"


section \<open>Letterbox geometry (yolo\_detector.py)\<close>

text \<open>
  \<open>preprocess\<close> reads the image size, computes the letterbox scale and padding, and
  returns them as \<open>image_info\<close> beside the tensor.  The model keeps the numbers.  The
  source fixes the model input at \<open>640 x 640\<close>; \<open>letterbox\<close> takes the input size as
  arguments and \<open>preprocess\<close> is its instance at \<open>640\<close>.  The quotient of two Python
  integers raises \<open>ZeroDivisionError\<close> on a zero divisor, and \<open>cv2.resize\<close> rejects an
  empty target size.
\<close>

record image_info =
  original_w :: nat
  original_h :: nat
  pad_x :: int
  pad_y :: int
  scale :: real

definition letterbox_scale :: "nat \<Rightarrow> nat \<Rightarrow> nat \<Rightarrow> nat \<Rightarrow> real" where
  "letterbox_scale input_w input_h ow oh =
     min (real input_w / real ow) (real input_h / real oh)"

definition letterbox_new_size :: "nat \<Rightarrow> nat \<Rightarrow> nat \<Rightarrow> nat \<Rightarrow> int \<times> int" where
  "letterbox_new_size input_w input_h ow oh =
     (let scale = letterbox_scale input_w input_h ow oh
      in (py_int (real ow * scale), py_int (real oh * scale)))"

definition letterbox :: "nat \<Rightarrow> nat \<Rightarrow> nat \<Rightarrow> nat \<Rightarrow> py_error + image_info" where
  "letterbox input_w input_h ow oh =
     (if ow = 0 \<or> oh = 0 then Inl ZeroDivisionError
      else
        (let scale = letterbox_scale input_w input_h ow oh;
             (new_w, new_h) = letterbox_new_size input_w input_h ow oh
         in if new_w = 0 \<or> new_h = 0 then Inl CvError
            else
              (let px = (int input_w - new_w) div 2;
                   py = (int input_h - new_h) div 2
               in Inr \<lparr>original_w = ow, original_h = oh,
                        pad_x = px, pad_y = py, scale = scale\<rparr>)))"

definition preprocess :: "nat \<Rightarrow> nat \<Rightarrow> py_error + image_info" where
  "preprocess ow oh = letterbox 640 640 ow oh"

text \<open>
  The inverse mapping of \<open>postprocess\<close>: model-input coordinates back to the original
  image (\<open>(x - pad_x) / scale\<close>), clipped to the image (\<open>np.clip\<close>).
\<close>

definition inverse_map :: "image_info \<Rightarrow> real \<times> real \<Rightarrow> real \<times> real" where
  "inverse_map info p =
     ((fst p - real_of_int (pad_x info)) / scale info,
      (snd p - real_of_int (pad_y info)) / scale info)"

definition np_clip :: "real \<Rightarrow> real \<Rightarrow> real \<Rightarrow> real" where
  "np_clip v lo hi = min (max v lo) hi"

definition clip_to_image :: "image_info \<Rightarrow> real \<times> real \<Rightarrow> real \<times> real" where
  "clip_to_image info p =
     (np_clip (fst p) 0 (real (original_w info)), np_clip (snd p) 0 (real (original_h info)))"

text \<open>
  The forward transform that \<open>preprocess\<close> applies to the image.  \<open>cv2.resize\<close> to
  \<open>new_w x new_h\<close> takes the source point \<open>(x, y)\<close> to
  \<open>(x * new_w / original_w, y * new_h / original_h)\<close>, and the paste into
  \<open>letterbox[pad_y:pad_y+new_h, pad_x:pad_x+new_w]\<close> shifts it by the padding.  The
  factors are the truncated sizes over the original ones, not \<open>scale\<close>.
\<close>

definition forward_map :: "nat \<Rightarrow> nat \<Rightarrow> nat \<Rightarrow> nat \<Rightarrow> real \<times> real \<Rightarrow> real \<times> real" where
  "forward_map input_w input_h ow oh p =
     (let (new_w, new_h) = letterbox_new_size input_w input_h ow oh;
          px = (int input_w - new_w) div 2;
          py = (int input_h - new_h) div 2
      in (fst p * (real_of_int new_w / real ow) + real_of_int px,
          snd p * (real_of_int new_h / real oh) + real_of_int py))"

text \<open>
  The letterbox computation in the words of the specification, with \<open>round\<close> where the
  source truncates.
\<close>

definition spec_new_size :: "nat \<Rightarrow> nat \<Rightarrow> nat \<Rightarrow> int \<times> int" where
  "spec_new_size dst_size src_w src_h =
     (let scale = min (real dst_size / real src_w) (real dst_size / real src_h)
      in (round (real src_w * scale), round (real src_h * scale)))"


section \<open>Decoding, confidence filter and non-maximum suppression (yolo\_detector.py)\<close>

text \<open>
  A box is the row \<open>(x1, y1, x2, y2)\<close> of the array that \<open>_nms\<close> receives.
\<close>

type_synonym box = "real \<times> real \<times> real \<times> real"

definition box_area :: "box \<Rightarrow> real" where
  "box_area b = (case b of (x1, y1, x2, y2) \<Rightarrow> (x2 - x1) * (y2 - y1))"

definition intersection :: "box \<Rightarrow> box \<Rightarrow> real" where
  "intersection a b =
     (case a of (ax1, ay1, ax2, ay2) \<Rightarrow>
      case b of (bx1, by1, bx2, by2) \<Rightarrow>
        (let xx1 = max ax1 bx1; yy1 = max ay1 by1;
             xx2 = min ax2 bx2; yy2 = min ay2 by2;
             w = max 0 (xx2 - xx1); h = max 0 (yy2 - yy1)
         in w * h))"

text \<open>
  The quotient \<open>intersection / (areas[i] + areas[order[1:]] - intersection)\<close> of \<open>_nms\<close>,
  for one pair of boxes.  The source divides without a guard.
\<close>

definition iou :: "box \<Rightarrow> box \<Rightarrow> npfloat" where
  "iou a b = np_divide (intersection a b) (box_area a + box_area b - intersection a b)"

text \<open>
  \<open>scores.argsort()\<close> is numpy's, called with its default sort, which numpy documents as
  not stable: the result is a permutation of the indices that puts the scores in
  ascending order, and the order of equal scores is not fixed by the source.  The
  embedding therefore takes \<open>argsort\<close> as a parameter; \<open>is_argsort\<close> is the contract for
  one array and \<open>valid_argsort\<close> the contract for all.
\<close>

definition is_argsort :: "real list \<Rightarrow> nat list \<Rightarrow> bool" where
  "is_argsort scores order =
     (mset order = mset [0..<length scores] \<and> sorted (map (\<lambda>i. scores ! i) order))"

definition valid_argsort :: "(real list \<Rightarrow> nat list) \<Rightarrow> bool" where
  "valid_argsort argsort = (\<forall>scores. is_argsort scores (argsort scores))"

text \<open>
  One admissible \<open>argsort\<close>, used to evaluate concrete inputs: the insertion sort that
  numpy's generic sort is on short arrays, which leaves equal scores in index order.
\<close>

definition insertion_argsort :: "real list \<Rightarrow> nat list" where
  "insertion_argsort scores = sort_key (\<lambda>i. scores ! i) [0..<length scores]"

text \<open>
  One pass of the loop body: \<open>mask = iou <= iou_threshold; order = order[1:][mask]\<close>,
  the candidates of \<open>rest\<close> that stay after box \<open>i\<close> has been kept.
\<close>

definition suppress :: "box list \<Rightarrow> real \<Rightarrow> nat \<Rightarrow> nat list \<Rightarrow> nat list" where
  "suppress boxes iou_threshold i rest =
     filter (\<lambda>j. np_le (iou (boxes ! i) (boxes ! j)) iou_threshold) rest"

function nms_loop :: "box list \<Rightarrow> real \<Rightarrow> nat list \<Rightarrow> nat list" where
  "nms_loop boxes iou_threshold [] = []"
| "nms_loop boxes iou_threshold (i # rest) =
     i # (if rest = [] then []
          else nms_loop boxes iou_threshold (suppress boxes iou_threshold i rest))"
  by pat_completeness auto
termination
  by (relation "measure (\<lambda>(boxes, t, order). length order)")
    (auto simp: suppress_def less_Suc_eq_le)

text \<open>
  \<open>_nms\<close>.  With two or more scores the first iteration reads the box of every index, so
  fewer boxes than scores raise \<open>IndexError\<close>; \<open>postprocess\<close> passes as many boxes as
  scores.
\<close>

definition nms ::
  "(real list \<Rightarrow> nat list) \<Rightarrow> box list \<Rightarrow> real list \<Rightarrow> real \<Rightarrow> py_error + nat list" where
  "nms argsort boxes scores iou_threshold =
     (if 2 \<le> length scores \<and> length boxes < length scores then Inl IndexError
      else Inr (nms_loop boxes iou_threshold (rev (argsort scores))))"

text \<open>numpy's selection of rows by a list of indices, \<open>boxes[keep]\<close>.\<close>

definition take_rows :: "nat list \<Rightarrow> 'a list \<Rightarrow> 'a list" where
  "take_rows idx xs = map (\<lambda>i. xs ! i) idx"

text \<open>
  A row of the prediction tensor after the transposition to \<open>[N, 4 + C]\<close>: the box in
  centre format and the class scores.
\<close>

record prediction =
  x_center :: real
  y_center :: real
  box_w :: real
  box_h :: real
  class_scores :: "real list"

text \<open>\<open>np.argmax\<close> returns the first index of the maximum.\<close>

definition np_argmax :: "real list \<Rightarrow> nat" where
  "np_argmax xs = length (takeWhile (\<lambda>v. v \<noteq> Max (set xs)) xs)"

definition np_max :: "real list \<Rightarrow> real" where
  "np_max xs = Max (set xs)"

definition COCO_CLASSES :: "string list" where
  "COCO_CLASSES =
    [''person'', ''bicycle'', ''car'', ''motorcycle'', ''airplane'', ''bus'',
     ''train'', ''truck'', ''boat'', ''traffic light'', ''fire hydrant'',
     ''stop sign'', ''parking meter'', ''bench'', ''bird'', ''cat'', ''dog'',
     ''horse'', ''sheep'', ''cow'', ''elephant'', ''bear'', ''zebra'', ''giraffe'',
     ''backpack'', ''umbrella'', ''handbag'', ''tie'', ''suitcase'', ''frisbee'',
     ''skis'', ''snowboard'', ''sports ball'', ''kite'', ''baseball bat'',
     ''baseball glove'', ''skateboard'', ''surfboard'', ''tennis racket'', ''bottle'',
     ''wine glass'', ''cup'', ''fork'', ''knife'', ''spoon'', ''bowl'', ''banana'',
     ''apple'', ''sandwich'', ''orange'', ''broccoli'', ''carrot'', ''hot dog'',
     ''pizza'', ''donut'', ''cake'', ''chair'', ''couch'', ''potted plant'', ''bed'',
     ''dining table'', ''toilet'', ''tv'', ''laptop'', ''mouse'', ''remote'',
     ''keyboard'', ''cell phone'', ''microwave'', ''oven'', ''toaster'', ''sink'',
     ''refrigerator'', ''book'', ''clock'', ''vase'', ''scissors'', ''teddy bear'',
     ''hair drier'', ''toothbrush'']"

definition TRAFFIC_CLASSES :: "string set" where
  "TRAFFIC_CLASSES =
     set [''person'', ''bicycle'', ''car'', ''motorcycle'', ''bus'', ''truck'', ''dog'', ''cat'']"

text \<open>Boolean-mask indexing, \<open>xs[mask]\<close>.\<close>

definition compress :: "bool list \<Rightarrow> 'a list \<Rightarrow> 'a list" where
  "compress msk xs = map snd (filter fst (zip msk xs))"

definition confidence_mask :: "real \<Rightarrow> real list \<Rightarrow> bool list" where
  "confidence_mask conf_threshold confidences = map (\<lambda>c. c > conf_threshold) confidences"

text \<open>
  Centre format to corner format, back to original image coordinates, clipped to the
  image.  \<open>scale\<close> is the positive factor that \<open>preprocess\<close> returns.
\<close>

definition corner_box :: "image_info \<Rightarrow> prediction \<Rightarrow> box" where
  "corner_box info p =
     (let x1 = x_center p - box_w p / 2;
          y1 = y_center p - box_h p / 2;
          x2 = x_center p + box_w p / 2;
          y2 = y_center p + box_h p / 2;
          x1 = (x1 - real_of_int (pad_x info)) / scale info;
          y1 = (y1 - real_of_int (pad_y info)) / scale info;
          x2 = (x2 - real_of_int (pad_x info)) / scale info;
          y2 = (y2 - real_of_int (pad_y info)) / scale info;
          x1 = np_clip x1 0 (real (original_w info));
          y1 = np_clip y1 0 (real (original_h info));
          x2 = np_clip x2 0 (real (original_w info));
          y2 = np_clip y2 0 (real (original_h info))
      in (x1, y1, x2, y2))"

text \<open>
  A detection is the tuple \<open>(class_name, confidence, x1, y1, x2, y2)\<close>.  The result loop
  runs over the kept indices in order; \<open>filter_classes\<close> filters only when it is a
  non-empty set.
\<close>

type_synonym detection = "string \<times> real \<times> int \<times> int \<times> int \<times> int"

definition det_confidence :: "detection \<Rightarrow> real" where
  "det_confidence d = fst (snd d)"

fun build_detections ::
  "nat list \<Rightarrow> real list \<Rightarrow> box list \<Rightarrow> string set option \<Rightarrow> nat list \<Rightarrow>
   py_error + detection list" where
  "build_detections class_ids confidences boxes filter_classes [] = Inr []"
| "build_detections class_ids confidences boxes filter_classes (i # indices) =
     (if length COCO_CLASSES \<le> class_ids ! i then Inl IndexError
      else
        (let class_name = COCO_CLASSES ! (class_ids ! i)
         in case build_detections class_ids confidences boxes filter_classes indices of
              Inl e \<Rightarrow> Inl e
            | Inr ds \<Rightarrow>
                if (case filter_classes of None \<Rightarrow> False
                    | Some fc \<Rightarrow> fc \<noteq> {} \<and> class_name \<notin> fc)
                then Inr ds
                else
                  (case boxes ! i of (x1, y1, x2, y2) \<Rightarrow>
                     Inr ((class_name, confidences ! i,
                           py_int x1, py_int y1, py_int x2, py_int y2) # ds))))"

text \<open>
  \<open>postprocess\<close>, from the rows of the prediction tensor on.  \<open>np.argmax\<close> raises
  \<open>ValueError\<close> on a row without class scores.
\<close>

definition postprocess ::
  "(real list \<Rightarrow> nat list) \<Rightarrow> real \<Rightarrow> real \<Rightarrow> prediction list \<Rightarrow> image_info \<Rightarrow>
   string set option \<Rightarrow> py_error + detection list" where
  "postprocess argsort conf_threshold iou_threshold predictions info filter_classes =
     (if list_ex (\<lambda>p. class_scores p = []) predictions then Inl ValueError
      else
        (let class_ids = map (\<lambda>p. np_argmax (class_scores p)) predictions;
             confidences = map (\<lambda>p. np_max (class_scores p)) predictions;
             msk = confidence_mask conf_threshold confidences;
             boxes = compress msk predictions;
             class_ids = compress msk class_ids;
             confidences = compress msk confidences
         in if boxes = [] then Inr []
            else
              (let boxes_for_nms = map (corner_box info) boxes
               in case nms argsort boxes_for_nms confidences iou_threshold of
                    Inl e \<Rightarrow> Inl e
                  | Inr indices \<Rightarrow>
                      build_detections class_ids confidences boxes_for_nms
                        filter_classes indices)))"


section \<open>Properties of the self-calibration\<close>

lemma self_calibrate_threshold:
  "confidence_threshold (self_calibrate s) =
     (if avg_confidence (get_performance_stats s) < 0.4
      then max 0.3 (confidence_threshold s - 0.05)
      else if avg_confidence (get_performance_stats s) > 0.9
      then min 0.8 (confidence_threshold s + 0.05)
      else confidence_threshold s)"
  by (simp add: self_calibrate_def Let_def)




lemma avg_confidence_empty:
  "detection_confidences s = [] \<Longrightarrow> avg_confidence (get_performance_stats s) = 0"
  by (simp add: get_performance_stats_def Let_def)






text \<open>
  C10.  When no confidence sample has been recorded, \<open>get_performance_stats\<close> reports
  an average confidence of \<open>0.0\<close>, and \<open>self_calibrate\<close> therefore lowers the threshold
  by one step of \<open>0.05\<close>, floored at \<open>0.3\<close>: an empty window counts as low confidence.
\<close>

theorem empty_window_lowers_threshold:
  assumes "detection_confidences s = []"
  shows "avg_confidence (get_performance_stats s) = 0 \<and>
         confidence_threshold (self_calibrate s) = max 0.3 (confidence_threshold s - 0.05)"
  using assms by (simp add: avg_confidence_empty self_calibrate_threshold)

theorem empty_window_lowers_threshold_witness:
  "detection_confidences VisionProcessor_init = [] \<and>
   avg_confidence (get_performance_stats VisionProcessor_init) = 0 \<and>
   confidence_threshold (self_calibrate VisionProcessor_init) = 0.45"
proof -
  have e: "detection_confidences VisionProcessor_init = []"
    by (simp add: VisionProcessor_init_def)
  have thr: "confidence_threshold VisionProcessor_init = 0.5"
    by (simp add: VisionProcessor_init_def DETECTION_CONFIDENCE_THRESHOLD_def)
  from empty_window_lowers_threshold [OF e] show ?thesis
    using e by (simp add: thr)
qed

section \<open>Properties of the motion gate\<close>

lemma vp_detect_motion_mask:
  assumes "fg_mask \<noteq> []"
  shows "vp_detect_motion (Inr fg_mask) =
           (real (length fg_mask) < 100 * real (length (filter (\<lambda>v. v > 0) fg_mask)),
            Finite (real (length (filter (\<lambda>v. v > 0) fg_mask)) / real (length fg_mask) * 100))"
  using assms
  by (simp add: vp_detect_motion_def np_divide_def Let_def pos_less_divide_eq mult.commute)

text \<open>
  C9 (as the code has it).  On a call of \<open>SmartObserver.detect_motion\<close> with no stored
  previous frame (the state a new \<open>SmartObserver\<close> starts in), the gate stores the gray
  version of the current frame and returns the changed fraction \<open>0.0\<close>, whatever the
  frame holds; \<open>0.0\<close> lies below \<open>MOTION_THRESHOLD\<close>, so the main loop sees no motion.
  \<open>VisionProcessor.detect_motion\<close> has no first-call case: on every call, the first
  included, it returns the percentage of nonzero pixels of the foreground mask that the
  background subtractor hands back, and reports motion exactly when more than one
  percent of the mask is nonzero.
\<close>

theorem first_frame_no_motion:
  assumes "prev_frame s = None" and "fg_mask \<noteq> []"
  shows "detect_motion to_gray frame s = (0, s\<lparr>prev_frame := Some (to_gray frame)\<rparr>) \<and>
         \<not> has_motion (fst (detect_motion to_gray frame s)) \<and>
         snd (vp_detect_motion (Inr fg_mask)) =
           Finite (real (length (filter (\<lambda>v. v > 0) fg_mask)) / real (length fg_mask) * 100) \<and>
         fst (vp_detect_motion (Inr fg_mask)) =
           (real (length fg_mask) < 100 * real (length (filter (\<lambda>v. v > 0) fg_mask)))"
  using assms vp_detect_motion_mask [OF assms(2)]
  by (simp add: detect_motion_def has_motion_def MOTION_THRESHOLD_def)

theorem first_frame_no_motion_witness:
  "prev_frame SmartObserver_init = None \<and> [0, 0, 0, 0::nat] \<noteq> [] \<and>
   detect_motion (\<lambda>f. f) [10, 200, 30] SmartObserver_init =
     (0, \<lparr>prev_frame = Some [10, 200, 30], frame_count = 0\<rparr>) \<and>
   \<not> has_motion (fst (detect_motion (\<lambda>f. f) [10, 200, 30] SmartObserver_init)) \<and>
   vp_detect_motion (Inr [0, 0, 0, 0]) = (False, Finite 0)"
proof -
  have n: "prev_frame SmartObserver_init = None"
    by (simp add: SmartObserver_init_def)
  have m: "[0, 0, 0, 0::nat] \<noteq> []" by simp
  from first_frame_no_motion [OF n m, of "\<lambda>f. f" "[10, 200, 30]"]
  show ?thesis using n
    by (simp add: SmartObserver_init_def has_motion_def MOTION_THRESHOLD_def prod_eq_iff)
qed

text \<open>
  OpenCV's subtractor has no background model on its first frame and marks every pixel
  as foreground (\<open>255\<close>).  With that mask the first call of
  \<open>VisionProcessor.detect_motion\<close> returns \<open>(True, 100.0)\<close>.
\<close>

theorem vision_processor_first_frame_counterexample:
  "vp_detect_motion (Inr [255, 255, 255, 255]) = (True, Finite 100)"
  by (simp add: vp_detect_motion_def np_divide_def Let_def)


section \<open>Properties of the letterbox geometry\<close>

lemma letterbox_scale_pos:
  assumes "letterbox iw ih ow oh = Inr info"
  shows "0 < scale info"
proof -
  from assms have nz: "ow \<noteq> 0" "oh \<noteq> 0"
    by (auto simp: letterbox_def split: if_splits)
  let ?sc = "letterbox_scale iw ih ow oh"
  from assms nz have sc: "scale info = ?sc" and nw: "py_int (real ow * ?sc) \<noteq> 0"
    by (auto simp: letterbox_def letterbox_new_size_def Let_def split: if_splits)
  have "0 \<le> ?sc" by (simp add: letterbox_scale_def)
  moreover have "?sc \<noteq> 0" using nw by (auto simp: py_int_def)
  ultimately show ?thesis using sc by simp
qed

lemma letterbox_fields:
  assumes "letterbox iw ih ow oh = Inr info"
  shows "scale info = letterbox_scale iw ih ow oh"
    and "pad_x info = (int iw - fst (letterbox_new_size iw ih ow oh)) div 2"
    and "pad_y info = (int ih - snd (letterbox_new_size iw ih ow oh)) div 2"
    and "original_w info = ow" and "original_h info = oh"
  using assms
  by (auto simp: letterbox_def Let_def split: if_splits prod.splits)

lemma py_int_nonneg: "0 \<le> x \<Longrightarrow> py_int x = \<lfloor>x\<rfloor>"
  by (simp add: py_int_def)

lemma letterbox_new_size_floor:
  "letterbox_new_size iw ih ow oh =
     (\<lfloor>real ow * letterbox_scale iw ih ow oh\<rfloor>, \<lfloor>real oh * letterbox_scale iw ih ow oh\<rfloor>)"
proof -
  have "0 \<le> letterbox_scale iw ih ow oh" by (simp add: letterbox_scale_def)
  then show ?thesis by (simp add: letterbox_new_size_def py_int_nonneg Let_def)
qed

lemma preprocess_640_480:
  "preprocess 640 480 =
     Inr \<lparr>original_w = 640, original_h = 480, pad_x = 0, pad_y = 80, scale = 1\<rparr>"
  by (simp add: preprocess_def letterbox_def letterbox_new_size_def letterbox_scale_def
      py_int_def Let_def)

text \<open>
  C6 (as the code has it).  When \<open>preprocess\<close> succeeds, the scale is
  \<open>min (640 / src_w) (640 / src_h)\<close>, the resized width and height are the products
  \<open>src_w * scale\<close> and \<open>src_h * scale\<close> truncated to integers (\<open>int(...)\<close>, not rounded),
  each padding is the floor of half the remaining space, and a \<open>640 x 480\<close> frame yields
  \<open>scale = 1\<close>, \<open>pad_x = 0\<close>, \<open>pad_y = 80\<close>.
\<close>

theorem letterbox_truncates:
  assumes "preprocess ow oh = Inr info"
  shows "scale info = min (640 / real ow) (640 / real oh) \<and>
         letterbox_new_size 640 640 ow oh =
           (\<lfloor>real ow * scale info\<rfloor>, \<lfloor>real oh * scale info\<rfloor>) \<and>
         pad_x info = (640 - \<lfloor>real ow * scale info\<rfloor>) div 2 \<and>
         pad_y info = (640 - \<lfloor>real oh * scale info\<rfloor>) div 2 \<and>
         preprocess 640 480 =
           Inr \<lparr>original_w = 640, original_h = 480, pad_x = 0, pad_y = 80, scale = 1\<rparr>"
proof -
  from assms have l: "letterbox 640 640 ow oh = Inr info" by (simp add: preprocess_def)
  note f = letterbox_fields [OF l]
  have sc: "scale info = min (640 / real ow) (640 / real oh)"
    using f(1) by (simp add: letterbox_scale_def)
  have ns: "letterbox_new_size 640 640 ow oh =
           (\<lfloor>real ow * scale info\<rfloor>, \<lfloor>real oh * scale info\<rfloor>)"
    using letterbox_new_size_floor [of 640 640 ow oh] f(1) by simp
  show ?thesis using sc ns f(2,3) preprocess_640_480 by simp
qed

theorem letterbox_truncates_witness:
  "preprocess 1000 998 =
     Inr \<lparr>original_w = 1000, original_h = 998, pad_x = 0, pad_y = 1, scale = 16 / 25\<rparr> \<and>
   letterbox_new_size 640 640 1000 998 = (640, 638)"
proof -
  have p: "preprocess 1000 998 =
     Inr \<lparr>original_w = 1000, original_h = 998, pad_x = 0, pad_y = 1, scale = 16 / 25\<rparr>"
    by (simp add: preprocess_def letterbox_def letterbox_new_size_def letterbox_scale_def
      py_int_def Let_def)
  from letterbox_truncates [OF p] show ?thesis using p by simp
qed

text \<open>
  For a \<open>1000 x 998\<close> frame the scale is \<open>0.64\<close> and \<open>998 * 0.64 = 638.72\<close>: the source
  resizes to height \<open>638\<close> and pads by \<open>1\<close>, where rounding gives \<open>639\<close> and padding \<open>0\<close>.
\<close>

theorem letterbox_round_counterexample:
  "letterbox_new_size 640 640 1000 998 = (640, 638) \<and>
   spec_new_size 640 1000 998 = (640, 639) \<and>
   preprocess 1000 998 =
     Inr \<lparr>original_w = 1000, original_h = 998, pad_x = 0, pad_y = 1, scale = 16 / 25\<rparr> \<and>
   (640 - snd (spec_new_size 640 1000 998)) div 2 = 0"
  by (simp add: preprocess_def letterbox_def letterbox_new_size_def letterbox_scale_def
      spec_new_size_def py_int_def Let_def round_def)


lemma clip_inside:
  assumes "0 \<le> fst p" "fst p \<le> real (original_w info)"
    "0 \<le> snd p" "snd p \<le> real (original_h info)"
  shows "clip_to_image info p = p"
  using assms by (simp add: clip_to_image_def np_clip_def prod_eq_iff)

text \<open>
  One axis of the round trip: a side of length \<open>n\<close> is resized to \<open>\<lfloor>n * s\<rfloor>\<close> with factor
  \<open>\<lfloor>n * s\<rfloor> / n\<close>, and mapped back with \<open>1 / s\<close>.
\<close>

lemma axis_round_trip:
  fixes x s p :: real and n :: nat
  assumes s: "0 < s" and n: "0 < n" and x0: "0 \<le> x" and xn: "x \<le> real n"
  defines "x' \<equiv> (x * (real_of_int \<lfloor>real n * s\<rfloor> / real n) + p - p) / s"
  shows "0 \<le> x'" and "x' \<le> x" and "(x - x') * s < 1"
proof -
  let ?m = "real_of_int \<lfloor>real n * s\<rfloor>"
  have n': "0 < real n" using n by simp
  have m0: "0 \<le> ?m" using s by simp
  have m1: "?m \<le> real n * s" by (rule of_int_floor_le)
  have m2: "real n * s - ?m < 1" by linarith
  have x': "x' * s = x * (?m / real n)"
    using s by (simp add: x'_def)
  have r0: "0 \<le> ?m / real n" using m0 n' by simp
  have r1: "?m / real n \<le> s"
    using m1 n' by (simp add: pos_divide_le_eq mult.commute)
  have "0 \<le> x * (?m / real n)"
    by (rule mult_nonneg_nonneg [OF x0 r0])
  then have "0 \<le> x' * s" by (simp only: x')
  then show "0 \<le> x'" using s by (simp add: zero_le_mult_iff)
  have "x' * s \<le> x * s"
    unfolding x' by (rule mult_left_mono [OF r1 x0])
  then show "x' \<le> x" using s by simp
  have "(x - x') * s = x * s - x * (?m / real n)"
    using x' by (simp add: algebra_simps)
  also have "\<dots> = (x / real n) * (real n * s - ?m)"
    using n' by (simp add: field_simps)
  also have "\<dots> \<le> 1 * (real n * s - ?m)"
  proof (rule mult_right_mono)
    show "x / real n \<le> 1" using xn n' by simp
    show "0 \<le> real n * s - ?m" using m1 by simp
  qed
  also have "\<dots> < 1" using m2 by simp
  finally show "(x - x') * s < 1" .
qed

lemma round_trip_components:
  assumes "letterbox dst_size dst_size src_w src_h = Inr info"
  shows "fst (inverse_map info (forward_map dst_size dst_size src_w src_h (x, y))) =
           (x * (real_of_int \<lfloor>real src_w * scale info\<rfloor> / real src_w)
              + real_of_int (pad_x info) - real_of_int (pad_x info)) / scale info"
    and "snd (inverse_map info (forward_map dst_size dst_size src_w src_h (x, y))) =
           (y * (real_of_int \<lfloor>real src_h * scale info\<rfloor> / real src_h)
              + real_of_int (pad_y info) - real_of_int (pad_y info)) / scale info"
  using letterbox_fields [OF assms]
    letterbox_new_size_floor [of dst_size dst_size src_w src_h]
  by (simp_all add: inverse_map_def forward_map_def Let_def)

text \<open>
  C7 (as the code has it).  For every model input size and every source size for which
  the letterbox computation succeeds, and every point \<open>(x, y)\<close> inside the source image,
  mapping forwards (resize to the truncated size, paste at the padding) and then
  backwards (\<open>(x - pad_x) / scale\<close>) returns a point that lies inside the image, is not
  beyond \<open>(x, y)\<close>, and falls short of it by less than \<open>1 / scale\<close> source pixels in each
  axis, that is, by less than one pixel of the model input.  The difference is below one
  source pixel when \<open>scale >= 1\<close>.
\<close>

theorem geometry_round_trip:
  assumes "letterbox dst_size dst_size src_w src_h = Inr info"
    and "0 \<le> x" and "x \<le> real src_w" and "0 \<le> y" and "y \<le> real src_h"
  shows "fst (inverse_map info (forward_map dst_size dst_size src_w src_h (x, y))) \<le> x \<and>
         (x - fst (inverse_map info (forward_map dst_size dst_size src_w src_h (x, y))))
            * scale info < 1 \<and>
         snd (inverse_map info (forward_map dst_size dst_size src_w src_h (x, y))) \<le> y \<and>
         (y - snd (inverse_map info (forward_map dst_size dst_size src_w src_h (x, y))))
            * scale info < 1 \<and>
         clip_to_image info
           (inverse_map info (forward_map dst_size dst_size src_w src_h (x, y))) =
           inverse_map info (forward_map dst_size dst_size src_w src_h (x, y)) \<and>
         (1 \<le> scale info \<longrightarrow>
            \<bar>fst (inverse_map info (forward_map dst_size dst_size src_w src_h (x, y))) - x\<bar> < 1 \<and>
            \<bar>snd (inverse_map info (forward_map dst_size dst_size src_w src_h (x, y))) - y\<bar> < 1)"
proof -
  let ?q = "inverse_map info (forward_map dst_size dst_size src_w src_h (x, y))"
  have pos: "0 < scale info" by (rule letterbox_scale_pos [OF assms(1)])
  from assms(1) have w: "0 < src_w" and h: "0 < src_h"
    by (auto simp: letterbox_def split: if_splits)
  note c = round_trip_components [OF assms(1), of x y]
  have fx: "0 \<le> fst ?q" "fst ?q \<le> x" "(x - fst ?q) * scale info < 1"
    unfolding c(1) by (rule axis_round_trip [OF pos w assms(2,3)])+
  have fy: "0 \<le> snd ?q" "snd ?q \<le> y" "(y - snd ?q) * scale info < 1"
    unfolding c(2) by (rule axis_round_trip [OF pos h assms(4,5)])+
  have clip: "clip_to_image info ?q = ?q"
  proof (rule clip_inside)
    show "0 \<le> fst ?q" by (rule fx(1))
    show "fst ?q \<le> real (original_w info)"
      using fx(2) assms(3) letterbox_fields(4) [OF assms(1)] by simp
    show "0 \<le> snd ?q" by (rule fy(1))
    show "snd ?q \<le> real (original_h info)"
      using fy(2) assms(5) letterbox_fields(5) [OF assms(1)] by simp
  qed
  have big: "\<bar>fst ?q - x\<bar> < 1 \<and> \<bar>snd ?q - y\<bar> < 1" if one: "1 \<le> scale info"
  proof -
    have "(x - fst ?q) * 1 \<le> (x - fst ?q) * scale info"
      by (rule mult_left_mono [OF one]) (use fx(2) in simp)
    moreover have "(y - snd ?q) * 1 \<le> (y - snd ?q) * scale info"
      by (rule mult_left_mono [OF one]) (use fy(2) in simp)
    ultimately show ?thesis using fx(2,3) fy(2,3) by simp
  qed
  show ?thesis using fx(2,3) fy(2,3) clip big by blast
qed

lemma letterbox_300_299:
  "letterbox 640 640 300 299 =
     Inr \<lparr>original_w = 300, original_h = 299, pad_x = 0, pad_y = 1, scale = 32 / 15\<rparr>"
  by (simp add: letterbox_def letterbox_new_size_def letterbox_scale_def py_int_def Let_def)

theorem geometry_round_trip_witness:
  "letterbox 640 640 300 299 =
     Inr \<lparr>original_w = 300, original_h = 299, pad_x = 0, pad_y = 1, scale = 32 / 15\<rparr> \<and>
   (1::real) \<le> 32 / 15 \<and>
   forward_map 640 640 300 299 (300, 299) = (640, 638) \<and>
   inverse_map \<lparr>original_w = 300, original_h = 299, pad_x = 0, pad_y = 1, scale = 32 / 15\<rparr>
     (640, 638) = (300, 9555 / 32) \<and>
   \<bar>snd (inverse_map
          \<lparr>original_w = 300, original_h = 299, pad_x = 0, pad_y = 1, scale = 32 / 15\<rparr>
          (forward_map 640 640 300 299 (300, 299))) - 299\<bar> < 1"
proof -
  have f: "forward_map 640 640 300 299 (300, 299) = (640, 638)"
    by (simp add: forward_map_def letterbox_new_size_def letterbox_scale_def py_int_def
        Let_def)
  have i: "inverse_map
      \<lparr>original_w = 300, original_h = 299, pad_x = 0, pad_y = 1, scale = 32 / 15\<rparr>
      (640, 638) = (300, 9555 / 32)"
    by (simp add: inverse_map_def)
  from geometry_round_trip [OF letterbox_300_299, of 300 299]
  show ?thesis using letterbox_300_299 f i by simp
qed

text \<open>
  A \<open>4000 x 2999\<close> frame has scale \<open>0.16\<close> and \<open>2999 * 0.16 = 479.84\<close>, resized to \<open>479\<close> rows
  and padded by \<open>80\<close>.  The bottom edge \<open>y = 2999\<close> lands on row \<open>559\<close> and maps back to
  \<open>479 / 0.16 = 2993.75\<close>, more than five pixels away.
\<close>

theorem geometry_round_trip_counterexample:
  "letterbox 640 640 4000 2999 =
     Inr \<lparr>original_w = 4000, original_h = 2999, pad_x = 0, pad_y = 80, scale = 4 / 25\<rparr> \<and>
   forward_map 640 640 4000 2999 (4000, 2999) = (640, 559) \<and>
   inverse_map \<lparr>original_w = 4000, original_h = 2999, pad_x = 0, pad_y = 80, scale = 4 / 25\<rparr>
     (640, 559) = (4000, 11975 / 4) \<and>
   \<not> \<bar>(11975 / 4 :: real) - 2999\<bar> \<le> 1"
  by (simp add: letterbox_def forward_map_def inverse_map_def letterbox_new_size_def
      letterbox_scale_def py_int_def Let_def)


section \<open>Properties of the suppression pass and of the IoU\<close>

lemma iou_vals:
  "iou (3,0,13,10) (0,0,10,10) = Finite (7/13)"
  "iou (3,0,13,10) (0,0,10,7) = Finite (49/121)"
  "iou (3,0,13,10) (0,3,10,10) = Finite (49/121)"
  "iou (0,0,10,10) (0,0,10,7) = Finite (7/10)"
  "iou (0,0,10,10) (0,3,10,10) = Finite (7/10)"
  "iou (0,0,10,7) (0,3,10,10) = Finite (2/5)"
  by (simp_all add: iou_def np_divide_def intersection_def box_area_def Let_def)

lemma np_le_mono: "t1 \<le> t2 \<Longrightarrow> np_le v t1 \<Longrightarrow> np_le v t2"
  by (cases v) auto

lemma suppress_mono_filter:
  assumes "t1 \<le> t2"
  shows "suppress boxes t1 i rest =
         filter (\<lambda>j. np_le (iou (boxes ! i) (boxes ! j)) t1) (suppress boxes t2 i rest)"
proof -
  have "(np_le v t2 \<and> np_le v t1) = np_le v t1" for v
    using np_le_mono [OF assms] by blast
  then show ?thesis by (simp add: suppress_def)
qed

text \<open>
  C1 (as the code has it).  Within one pass of the loop, against one kept box, every
  candidate that stays at the smaller IoU threshold also stays at the larger one, so
  a pass never keeps fewer candidates at the larger threshold.  The number of boxes
  that the whole greedy loop keeps is not monotone.
\<close>

theorem suppress_monotone:
  assumes "t1 \<le> t2"
  shows "subseq (suppress boxes t1 i rest) (suppress boxes t2 i rest) \<and>
         length (suppress boxes t1 i rest) \<le> length (suppress boxes t2 i rest)"
proof -
  have "subseq (suppress boxes t1 i rest) (suppress boxes t2 i rest)"
    by (subst suppress_mono_filter [OF assms]) (rule subseq_filter_left)
  moreover have "length (suppress boxes t1 i rest) \<le> length (suppress boxes t2 i rest)"
    by (subst suppress_mono_filter [OF assms]) (rule length_filter_le)
  ultimately show ?thesis by simp
qed

theorem suppress_monotone_witness:
  "(0.45::real) \<le> 0.6 \<and>
   suppress [(3,0,13,10),(0,0,10,10),(0,0,10,7),(0,3,10,10)] 0.45 0 [1,2,3] = [2,3] \<and>
   suppress [(3,0,13,10),(0,0,10,10),(0,0,10,7),(0,3,10,10)] 0.6 0 [1,2,3] = [1,2,3] \<and>
   subseq (suppress [(3,0,13,10),(0,0,10,10),(0,0,10,7),(0,3,10,10)] 0.45 0 [1,2,3])
          (suppress [(3,0,13,10),(0,0,10,10),(0,0,10,7),(0,3,10,10)] 0.6 0 [1,2,3])"
proof -
  have le: "(0.45::real) \<le> 0.6" by simp
  have a: "suppress [(3,0,13,10),(0,0,10,10),(0,0,10,7),(0,3,10,10)] 0.45 0 [1,2,3] = [2,3]"
    by (simp add: suppress_def iou_vals)
  have b: "suppress [(3,0,13,10),(0,0,10,10),(0,0,10,7),(0,3,10,10)] 0.6 0 [1,2,3] = [1,2,3]"
    by (simp add: suppress_def iou_vals)
  from suppress_monotone [OF le, of "[(3,0,13,10),(0,0,10,10),(0,0,10,7),(0,3,10,10)]" 0 "[1,2,3]"]
  show ?thesis using le a b by simp
qed

text \<open>
  Four boxes with scores \<open>0.9, 0.8, 0.7, 0.6\<close>: at threshold \<open>0.45\<close> box 1 is suppressed by
  box 0 (IoU \<open>7/13\<close>) and boxes 2 and 3 are kept; at \<open>0.6\<close> box 1 is kept and suppresses
  boxes 2 and 3 (IoU \<open>0.7\<close>).  Three boxes are kept at \<open>0.45\<close>, two at \<open>0.6\<close>.  The scores
  are distinct, so the order of processing is the same for every admissible \<open>argsort\<close>.
\<close>

theorem nms_count_not_monotone:
  "(0.45::real) \<le> 0.6 \<and>
   nms insertion_argsort [(3,0,13,10),(0,0,10,10),(0,0,10,7),(0,3,10,10)] [0.9,0.8,0.7,0.6] 0.45 = Inr [0,2,3] \<and>
   nms insertion_argsort [(3,0,13,10),(0,0,10,10),(0,0,10,7),(0,3,10,10)] [0.9,0.8,0.7,0.6] 0.6 = Inr [0,1] \<and>
   \<not> length [0::nat,2,3] \<le> length [0::nat,1]"
proof -
  have o: "rev (insertion_argsort [0.9,0.8,0.7,0.6]) = [0,1,2,3]"
    by (simp add: insertion_argsort_def upt_rec)
  have a: "nms insertion_argsort [(3,0,13,10),(0,0,10,10),(0,0,10,7),(0,3,10,10)] [0.9,0.8,0.7,0.6] 0.45 = Inr [0,2,3]"
    unfolding nms_def o by (simp add: suppress_def iou_vals)
  have b: "nms insertion_argsort [(3,0,13,10),(0,0,10,10),(0,0,10,7),(0,3,10,10)] [0.9,0.8,0.7,0.6] 0.6 = Inr [0,1]"
    unfolding nms_def o by (simp add: suppress_def iou_vals)
  show ?thesis using a b by simp
qed

lemma intersection_nonneg: "0 \<le> intersection a b"
  by (cases a; cases b) (simp add: intersection_def Let_def)

text \<open>
  C2 (as the code has it).  The IoU of a pair is
  \<open>intersection / (areaA + areaB - intersection)\<close> when that denominator is not zero.
  When it is zero the division is carried out all the same: the value is NaN (or an
  infinity), never \<open>0\<close>, the comparison \<open>iou <= iou_threshold\<close> is false, and the
  candidate is dropped from the remaining order.
\<close>

theorem iou_unguarded:
  "iou a b =
     (if box_area a + box_area b - intersection a b \<noteq> 0
      then Finite (intersection a b / (box_area a + box_area b - intersection a b))
      else if 0 < intersection a b then PosInf else NaN) \<and>
   (box_area a + box_area b - intersection a b = 0 \<longrightarrow>
      iou a b \<noteq> Finite 0 \<and> \<not> np_le (iou a b) iou_threshold)"
  using intersection_nonneg [of a b] by (auto simp: iou_def np_divide_def)

theorem iou_unguarded_witness:
  "box_area (0,0,0,0) + box_area (2,2,2,2) - intersection (0,0,0,0) (2,2,2,2) = 0 \<and>
   iou (0,0,0,0) (2,2,2,2) = NaN \<and>
   \<not> np_le (iou (0,0,0,0) (2,2,2,2)) 0.45"
proof -
  have d: "box_area (0,0,0,0) + box_area (2,2,2,2) - intersection (0,0,0,0) (2,2,2,2) = 0"
    by (simp add: box_area_def intersection_def)
  have i: "intersection (0,0,0,0) (2,2,2,2) = 0"
    by (simp add: intersection_def)
  from iou_unguarded [of "(0,0,0,0)" "(2,2,2,2)" "0.45"]
  show ?thesis using d i by simp
qed

text \<open>
  Two degenerate boxes that do not overlap, with distinct scores: the IoU is NaN, and
  the second box is suppressed, where an IoU of \<open>0\<close> would keep it.
\<close>

theorem iou_zero_denominator_counterexample:
  "box_area (1,1,1,1) + box_area (5,5,5,5) - intersection (1,1,1,1) (5,5,5,5) = 0 \<and>
   iou (1,1,1,1) (5,5,5,5) = NaN \<and>
   iou (1,1,1,1) (5,5,5,5) \<noteq> Finite 0 \<and>
   nms insertion_argsort [(1,1,1,1),(5,5,5,5)] [0.9,0.8] 0.45 = Inr [0]"
proof -
  have o: "rev (insertion_argsort [0.9,0.8]) = [0,1]"
    by (simp add: insertion_argsort_def upt_rec)
  have i: "iou (1,1,1,1) (5,5,5,5) = NaN"
    by (simp add: iou_def np_divide_def intersection_def box_area_def)
  have n: "nms insertion_argsort [(1,1,1,1),(5,5,5,5)] [0.9,0.8] 0.45 = Inr [0]"
    unfolding nms_def o by (simp add: suppress_def i)
  show ?thesis using i n by (simp add: box_area_def intersection_def)
qed

section \<open>The processing order and the kept set of the greedy loop\<close>

lemma is_argsort_insertion: "is_argsort scores (insertion_argsort scores)"
  by (simp add: is_argsort_def insertion_argsort_def)

lemma valid_argsort_insertion: "valid_argsort insertion_argsort"
  by (simp add: valid_argsort_def is_argsort_insertion)

lemma argsort_mset:
  "valid_argsort argsort \<Longrightarrow> mset (argsort s) = mset [0..<length s]"
  by (simp add: valid_argsort_def is_argsort_def)

lemma argsort_set:
  assumes "valid_argsort argsort"
  shows "set (argsort s) = {0..<length s}"
proof -
  have "set (argsort s) = set [0..<length s]"
    by (rule mset_eq_setD [OF argsort_mset [OF assms]])
  then show ?thesis by simp
qed

lemma argsort_distinct:
  assumes "valid_argsort argsort"
  shows "distinct (argsort s)"
proof -
  have "distinct [0..<length s]" by simp
  then show ?thesis
    by (simp only: mset_eq_imp_distinct_iff [OF argsort_mset [OF assms, of s]])
qed

lemma argsort_sorted:
  "valid_argsort argsort \<Longrightarrow> sorted (map ((!) s) (argsort s))"
  by (simp add: valid_argsort_def is_argsort_def)

lemma rev_argsort_descending:
  assumes "valid_argsort argsort"
  shows "sorted_wrt (\<lambda>i j. s ! j \<le> s ! i) (rev (argsort s))"
  using argsort_sorted [OF assms, of s]
  by (simp add: sorted_wrt_rev sorted_map)

lemma suppress_subseq: "subseq (suppress boxes t i rest) rest"
  by (simp add: suppress_def)

lemma nms_loop_subseq: "subseq (nms_loop boxes t order) order"
proof (induction boxes t order rule: nms_loop.induct)
  case (1 boxes t)
  then show ?case by simp
next
  case (2 boxes t i rest)
  show ?case
  proof (cases "rest = []")
    case True
    then show ?thesis by simp
  next
    case False
    have "subseq (nms_loop boxes t (suppress boxes t i rest)) rest"
      by (rule subseq_order.trans [OF 2 [OF False] suppress_subseq])
    with False show ?thesis by simp
  qed
qed

lemma subseq_set_mem: "subseq xs ys \<Longrightarrow> x \<in> set xs \<Longrightarrow> x \<in> set ys"
  by (induction rule: list_emb.induct) auto

lemma sorted_wrt_subseq_lift: "subseq xs ys \<Longrightarrow> sorted_wrt R ys \<Longrightarrow> sorted_wrt R xs"
proof (induction rule: list_emb.induct)
  case (list_emb_Nil ys)
  then show ?case by simp
next
  case (list_emb_Cons xs ys y)
  then show ?case by simp
next
  case (list_emb_Cons2 x y xs ys)
  then show ?case by (auto dest: subseq_set_mem)
qed

lemma nms_loop_pairwise:
  "sorted_wrt (\<lambda>i j. np_le (iou (boxes ! i) (boxes ! j)) t) (nms_loop boxes t order)"
proof (induction boxes t order rule: nms_loop.induct)
  case (1 boxes t)
  then show ?case by simp
next
  case (2 boxes t i rest)
  show ?case
  proof (cases "rest = []")
    case True
    then show ?thesis by simp
  next
    case False
    let ?tl = "nms_loop boxes t (suppress boxes t i rest)"
    have mem: "np_le (iou (boxes ! i) (boxes ! j)) t" if "j \<in> set ?tl" for j
    proof -
      have "j \<in> set (suppress boxes t i rest)"
        by (rule subseq_set_mem [OF nms_loop_subseq that])
      then show ?thesis unfolding suppress_def by simp
    qed
    have ih: "sorted_wrt (\<lambda>i j. np_le (iou (boxes ! i) (boxes ! j)) t) ?tl"
      by (rule 2 [OF False])
    have eq: "nms_loop boxes t (i # rest) = i # ?tl"
      using False by simp
    show ?thesis
      unfolding eq sorted_wrt.simps using mem ih by blast
  qed
qed

lemma nms_loop_id:
  "sorted_wrt (\<lambda>i j. np_le (iou (boxes ! i) (boxes ! j)) t) order \<Longrightarrow>
   nms_loop boxes t order = order"
proof (induction order)
  case Nil
  then show ?case by simp
next
  case (Cons i rest)
  then have "suppress boxes t i rest = rest"
    by (simp add: suppress_def)
  with Cons show ?case by simp
qed

lemma intersection_sym: "intersection a b = intersection b a"
  by (cases a; cases b) (simp add: intersection_def Let_def max.commute min.commute)

lemma iou_sym: "iou a b = iou b a"
  by (simp add: iou_def intersection_sym [of a b] add.commute)


lemma length_take_rows: "length (take_rows idx xs) = length idx"
  by (simp add: take_rows_def)

lemma take_rows_nth: "a < length idx \<Longrightarrow> take_rows idx xs ! a = xs ! (idx ! a)"
  by (simp add: take_rows_def)

lemma take_rows_perm:
  assumes "mset idx = mset [0..<length xs]"
  shows "mset (take_rows idx xs) = mset xs"
proof -
  have "mset (take_rows idx xs) = image_mset ((!) xs) (mset idx)"
    by (simp add: take_rows_def)
  also have "\<dots> = mset (map ((!) xs) [0..<length xs])"
    unfolding assms by (simp only: mset_map)
  also have "\<dots> = mset xs"
    by (simp only: map_nth)
  finally show ?thesis .
qed

lemma pairwise_any_order:
  assumes pw: "sorted_wrt (\<lambda>i j. np_le (iou (boxes ! i) (boxes ! j)) t) keep"
    and d: "distinct order2" and r: "set order2 \<subseteq> {0..<length keep}"
  shows "sorted_wrt (\<lambda>a b. np_le (iou (take_rows keep boxes ! a) (take_rows keep boxes ! b)) t)
           order2"
proof -
  have ok: "np_le (iou (boxes ! (keep ! a)) (boxes ! (keep ! b))) t"
    if "a < length keep" "b < length keep" "a \<noteq> b" for a b
  proof (cases "a < b")
    case True
    then show ?thesis using sorted_wrt_nth_less [OF pw True that(2)] by simp
  next
    case False
    with that(3) have "b < a" by simp
    from sorted_wrt_nth_less [OF pw this that(1)] show ?thesis
      by (simp add: iou_sym [of "boxes ! (keep ! a)"])
  qed
  show ?thesis
    unfolding sorted_wrt_iff_nth_less
  proof (intro allI impI)
    fix i j assume ij: "i < j" "j < length order2"
    then have i: "i < length order2" by simp
    have a: "order2 ! i < length keep" using r nth_mem [OF i] by auto
    have b: "order2 ! j < length keep" using r nth_mem [OF ij(2)] by auto
    have ne: "order2 ! i \<noteq> order2 ! j"
      using d ij i by (simp add: nth_eq_iff_index_eq)
    from ok [OF a b ne] show "np_le (iou (take_rows keep boxes ! (order2 ! i))
        (take_rows keep boxes ! (order2 ! j))) t"
      by (simp add: take_rows_nth a b)
  qed
qed

lemma nms_Inr:
  assumes "nms argsort boxes scores t = Inr keep"
  shows "keep = nms_loop boxes t (rev (argsort scores))"
  using assms by (simp add: nms_def split: if_splits)

lemma nms_rerun:
  assumes v: "valid_argsort argsort" and "nms argsort boxes scores t = Inr keep"
  shows "nms argsort (take_rows keep boxes) (take_rows keep scores) t =
         Inr (rev (argsort (take_rows keep scores)))"
proof -
  let ?o2 = "rev (argsort (take_rows keep scores))"
  have pw: "sorted_wrt (\<lambda>i j. np_le (iou (boxes ! i) (boxes ! j)) t) keep"
    unfolding nms_Inr [OF assms(2)] by (rule nms_loop_pairwise)
  have d: "distinct ?o2" by (simp add: argsort_distinct [OF v])
  have r: "set ?o2 \<subseteq> {0..<length keep}"
    by (simp add: argsort_set [OF v] length_take_rows)
  have "nms_loop (take_rows keep boxes) t ?o2 = ?o2"
    by (rule nms_loop_id [OF pairwise_any_order [OF pw d r]])
  then show ?thesis by (simp add: nms_def length_take_rows)
qed

lemma sorted_wrt_ge_distinct:
  "sorted_wrt (\<lambda>a b. (b::real) \<le> a) xs \<Longrightarrow> distinct xs \<Longrightarrow> sorted_wrt (\<lambda>a b. b < a) xs"
  by (induction xs) (auto simp: less_le)

lemma argsort_distinct_unique:
  assumes a: "is_argsort xs order" and dx: "distinct xs"
  shows "order = insertion_argsort xs"
proof -
  have inj: "inj_on ((!) xs) (set [0..<length xs])"
    using dx by (auto simp: inj_on_def nth_eq_iff_index_eq)
  have "sort_key ((!) xs) [0..<length xs] = order"
  proof (rule sort_key_inj_key_eq [OF _ inj])
    show "mset [0..<length xs] = mset order"
      using a by (simp add: is_argsort_def)
    show "sorted (map ((!) xs) order)"
      using a by (simp add: is_argsort_def)
  qed
  then show ?thesis by (simp add: insertion_argsort_def)
qed

text \<open>
  With pairwise distinct scores the contract leaves one order only, so \<open>_nms\<close> gives the
  same result with every admissible \<open>argsort\<close>.
\<close>

lemma nms_distinct_scores:
  assumes "is_argsort scores (argsort scores)" and "distinct scores"
  shows "nms argsort boxes scores t = nms insertion_argsort boxes scores t"
  using argsort_distinct_unique [OF assms] by (simp add: nms_def)

lemma argsort_strictly_descending:
  assumes a: "is_argsort xs order" and d: "sorted_wrt (\<lambda>a b. (b::real) < a) xs"
  shows "order = rev [0..<length xs]"
proof -
  have dx: "distinct xs"
    using d by (induction xs) auto
  have "sorted_wrt (\<lambda>a b. b \<le> a) xs"
    by (rule sorted_wrt_mono_rel [OF _ d]) simp
  then have "sorted (rev xs)"
    by (simp add: sorted_wrt_rev)
  moreover have "map ((!) xs) (rev [0..<length xs]) = rev xs"
    by (simp only: rev_map [symmetric] map_nth)
  ultimately have "is_argsort xs (rev [0..<length xs])"
    by (simp add: is_argsort_def)
  from argsort_distinct_unique [OF this dx] argsort_distinct_unique [OF a dx]
  show ?thesis by simp
qed

lemma keep_scores_descending:
  assumes v: "valid_argsort argsort" and "nms argsort boxes scores t = Inr keep"
  shows "sorted_wrt (\<lambda>i j. scores ! j \<le> scores ! i) keep"
proof -
  have "sorted_wrt (\<lambda>i j. scores ! j \<le> scores ! i) (rev (argsort scores))"
    by (rule rev_argsort_descending [OF v])
  moreover have "subseq keep (rev (argsort scores))"
    unfolding nms_Inr [OF assms(2)] by (rule nms_loop_subseq)
  ultimately show ?thesis by (rule sorted_wrt_subseq_lift [rotated])
qed

lemma nms_rerun_distinct:
  assumes v: "valid_argsort argsort"
    and n: "nms argsort boxes scores t = Inr keep"
    and d: "distinct (take_rows keep scores)"
  shows "nms argsort (take_rows keep boxes) (take_rows keep scores) t =
         Inr [0..<length keep]"
proof -
  have "sorted_wrt (\<lambda>a b. b \<le> a) (take_rows keep scores)"
    using keep_scores_descending [OF v n]
    by (simp add: take_rows_def sorted_wrt_map)
  then have "sorted_wrt (\<lambda>a b. b < a) (take_rows keep scores)"
    using d by (rule sorted_wrt_ge_distinct)
  moreover have "is_argsort (take_rows keep scores) (argsort (take_rows keep scores))"
    using v by (simp add: valid_argsort_def)
  ultimately have "argsort (take_rows keep scores) = rev [0..<length keep]"
    using argsort_strictly_descending [of "take_rows keep scores"]
    by (simp add: length_take_rows)
  then show ?thesis using nms_rerun [OF v n] by simp
qed


section \<open>Properties of the decoding and the confidence filter\<close>

lemma compress_map_filter:
  "compress (map (\<lambda>x. P (f x)) xs) (map g xs) = map g (filter (\<lambda>x. P (f x)) xs)"
  by (induction xs) (simp_all add: compress_def)

lemma compress_confidences:
  "compress (confidence_mask ct (map f xs)) (map g xs) = map g (filter (\<lambda>x. ct < f x) xs)"
  using compress_map_filter [of "\<lambda>c. ct < c" f xs g]
  by (simp add: confidence_mask_def comp_def)

lemma compress_predictions:
  "compress (confidence_mask ct (map f xs)) xs = filter (\<lambda>x. ct < f x) xs"
  using compress_confidences [of ct f xs "\<lambda>x. x"] by simp

lemma build_detections_subseq:
  "build_detections cids confs bxs fc idx = Inr ds \<Longrightarrow>
   \<exists>js. subseq js idx \<and> map det_confidence ds = map ((!) confs) js"
proof (induction idx arbitrary: ds)
  case Nil
  then show ?case by simp
next
  case (Cons i idx)
  from Cons.prems obtain ds' where
    tl: "build_detections cids confs bxs fc idx = Inr ds'"
    by (auto simp: Let_def split: if_splits sum.splits)
  from Cons.IH [OF tl] obtain js where
    js: "subseq js idx" "map det_confidence ds' = map ((!) confs) js"
    by blast
  from Cons.prems tl have
    "ds = ds' \<or> (\<exists>n a b c d. ds = (n, confs ! i, a, b, c, d) # ds')"
    by (auto simp: Let_def split: if_splits prod.splits)
  then show ?case
  proof
    assume "ds = ds'"
    with js have "subseq js (i # idx) \<and> map det_confidence ds = map ((!) confs) js"
      by (auto intro: list_emb_Cons)
    then show ?thesis by blast
  next
    assume "\<exists>n a b c d. ds = (n, confs ! i, a, b, c, d) # ds'"
    with js have "subseq (i # js) (i # idx) \<and>
        map det_confidence ds = map ((!) confs) (i # js)"
      by (auto simp: det_confidence_def)
    then show ?thesis by blast
  qed
qed

lemma postprocess_Inr:
  assumes "postprocess argsort ct it preds info fc = Inr dets"
  shows "dets = [] \<or>
         (\<exists>indices.
            nms argsort (map (corner_box info) (filter (\<lambda>p. ct < np_max (class_scores p)) preds))
                (map (\<lambda>p. np_max (class_scores p))
                     (filter (\<lambda>p. ct < np_max (class_scores p)) preds)) it = Inr indices \<and>
            build_detections
              (map (\<lambda>p. np_argmax (class_scores p))
                   (filter (\<lambda>p. ct < np_max (class_scores p)) preds))
              (map (\<lambda>p. np_max (class_scores p))
                   (filter (\<lambda>p. ct < np_max (class_scores p)) preds))
              (map (corner_box info) (filter (\<lambda>p. ct < np_max (class_scores p)) preds))
              fc indices = Inr dets)"
  using assms
  unfolding postprocess_def Let_def compress_confidences compress_predictions
  by (auto split: if_splits sum.splits)

lemma nms_indices_range:
  assumes v: "valid_argsort argsort" and "nms argsort boxes scores t = Inr keep"
  shows "set keep \<subseteq> {0..<length scores}"
proof -
  have "subseq keep (rev (argsort scores))"
    unfolding nms_Inr [OF assms(2)] by (rule nms_loop_subseq)
  then have "set keep \<subseteq> set (rev (argsort scores))"
    by (auto dest: subseq_set_mem)
  then show ?thesis by (simp add: argsort_set [OF v])
qed

lemma postprocess_confidences:
  assumes v: "valid_argsort argsort"
    and pp: "postprocess argsort ct it preds info fc = Inr dets"
  shows "sorted_wrt (\<lambda>d e. det_confidence e \<le> det_confidence d) dets \<and>
         (\<forall>d \<in> set dets. \<exists>p \<in> set preds.
             ct < np_max (class_scores p) \<and> det_confidence d = np_max (class_scores p))"
proof -
  let ?F = "filter (\<lambda>p. ct < np_max (class_scores p)) preds"
  let ?C = "map (\<lambda>p. np_max (class_scores p)) ?F"
  from postprocess_Inr [OF pp] show ?thesis
  proof
    assume "dets = []"
    then show ?thesis by simp
  next
    assume "\<exists>indices.
            nms argsort (map (corner_box info) ?F) ?C it = Inr indices \<and>
            build_detections (map (\<lambda>p. np_argmax (class_scores p)) ?F) ?C
              (map (corner_box info) ?F) fc indices = Inr dets"
    then obtain indices where
      n: "nms argsort (map (corner_box info) ?F) ?C it = Inr indices" and
      b: "build_detections (map (\<lambda>p. np_argmax (class_scores p)) ?F) ?C
              (map (corner_box info) ?F) fc indices = Inr dets"
      by blast
    from build_detections_subseq [OF b] obtain js where
      js: "subseq js indices" "map det_confidence dets = map ((!) ?C) js"
      by blast
    have "sorted_wrt (\<lambda>i j. ?C ! j \<le> ?C ! i) js"
      by (rule sorted_wrt_subseq_lift [OF js(1) keep_scores_descending [OF v n]])
    then have "sorted_wrt (\<lambda>a b. b \<le> a) (map ((!) ?C) js)"
      by (simp add: sorted_wrt_map)
    then have "sorted_wrt (\<lambda>a b. b \<le> a) (map det_confidence dets)"
      by (simp only: js(2))
    then have s: "sorted_wrt (\<lambda>d e. det_confidence e \<le> det_confidence d) dets"
      by (simp add: sorted_wrt_map)
    have rng: "set js \<subseteq> {0..<length ?C}"
      using nms_indices_range [OF v n] js(1) by (auto dest: subseq_set_mem)
    have m: "\<exists>p \<in> set preds. ct < np_max (class_scores p) \<and>
               det_confidence d = np_max (class_scores p)" if d: "d \<in> set dets" for d
    proof -
      from d have "det_confidence d \<in> set (map det_confidence dets)" by simp
      then have "det_confidence d \<in> set (map ((!) ?C) js)" by (simp only: js(2))
      then obtain j where j: "j \<in> set js" "det_confidence d = ?C ! j" by auto
      with rng have "j < length ?C" by auto
      then have "?C ! j \<in> set ?C" by (rule nth_mem)
      then obtain p where "p \<in> set ?F" "?C ! j = np_max (class_scores p)" by auto
      with j(2) show ?thesis by auto
    qed
    from s m show ?thesis by blast
  qed
qed

lemma filter_predictions_idem:
  "filter (\<lambda>p. ct < np_max (class_scores p)) (filter (\<lambda>p. ct < np_max (class_scores p)) preds)
   = filter (\<lambda>p. ct < np_max (class_scores p)) preds"
  by simp

lemma postprocess_drop_low:
  assumes "postprocess argsort ct it preds info fc = Inr dets"
  shows "postprocess argsort ct it
           (filter (\<lambda>p. ct < np_max (class_scores p)) preds) info fc = Inr dets"
proof -
  have ne: "\<not> list_ex (\<lambda>p. class_scores p = []) preds"
    using assms by (auto simp: postprocess_def split: if_splits)
  then have ne': "\<not> list_ex (\<lambda>p. class_scores p = [])
                       (filter (\<lambda>p. ct < np_max (class_scores p)) preds)"
    by (auto simp: list_ex_iff)
  have "postprocess argsort ct it (filter (\<lambda>p. ct < np_max (class_scores p)) preds) info fc =
        postprocess argsort ct it preds info fc"
    unfolding postprocess_def Let_def compress_confidences compress_predictions
      filter_predictions_idem
    using ne ne' by simp
  with assms show ?thesis by simp
qed

section \<open>Confidence filter, processing order and second run\<close>

lemma postprocess_example:
  "postprocess insertion_argsort 0.5 0.45
     [\<lparr>x_center = 100, y_center = 180, box_w = 40, box_h = 40, class_scores = [0.1, 0.2, 0.9]\<rparr>,
      \<lparr>x_center = 300, y_center = 280, box_w = 60, box_h = 40, class_scores = [0.7, 0.2, 0.1]\<rparr>,
      \<lparr>x_center = 500, y_center = 380, box_w = 20, box_h = 20, class_scores = [0.1, 0.2, 0.5]\<rparr>]
     \<lparr>original_w = 640, original_h = 480, pad_x = 0, pad_y = 80, scale = 1\<rparr> None =
   Inr [(''car'', 0.9, 80, 80, 120, 120), (''person'', 0.7, 270, 180, 330, 220)]"
proof -
  have i: "iou (80, 80, 120, 120) (270, 180, 330, 220) = Finite 0"
    by (simp add: iou_def np_divide_def intersection_def box_area_def Let_def)
  have o: "rev (insertion_argsort [9 / 10, 7 / 10]) = [0, 1]"
    by (simp add: insertion_argsort_def upt_rec)
  have n: "nms insertion_argsort [(80, 80, 120, 120), (270, 180, 330, 220)] [9 / 10, 7 / 10] (9 / 20) = Inr [0, 1]"
    unfolding nms_def o by (simp add: suppress_def i)
  show ?thesis
    unfolding postprocess_def Let_def compress_confidences compress_predictions
    by (simp add: np_max_def np_argmax_def corner_box_def np_clip_def n
        COCO_CLASSES_def py_int_def)
qed


text \<open>
  C4 (as the code has it).  The confidence filter of \<open>postprocess\<close> keeps exactly the
  candidates whose confidence is strictly greater than the threshold: the masked
  candidates are those with \<open>confidence > conf_threshold\<close>, every detection of the final
  output carries the confidence of such a candidate, and the candidates with
  \<open>confidence <= conf_threshold\<close> have no part in the output (removing them from the input
  leaves the output unchanged).  This holds for every \<open>argsort\<close> that meets numpy's
  contract.
\<close>

theorem confidence_filter_strict:
  assumes "valid_argsort argsort"
    and "postprocess argsort conf_threshold iou_threshold predictions info filter_classes =
         Inr dets"
  shows "compress (confidence_mask conf_threshold
                     (map (\<lambda>p. np_max (class_scores p)) predictions)) predictions =
           filter (\<lambda>p. conf_threshold < np_max (class_scores p)) predictions \<and>
         (\<forall>d \<in> set dets. \<exists>p \<in> set predictions.
             conf_threshold < np_max (class_scores p) \<and>
             det_confidence d = np_max (class_scores p)) \<and>
         postprocess argsort conf_threshold iou_threshold
           (filter (\<lambda>p. conf_threshold < np_max (class_scores p)) predictions)
           info filter_classes = Inr dets"
  using compress_predictions [of conf_threshold "\<lambda>p. np_max (class_scores p)" predictions]
    postprocess_confidences [OF assms] postprocess_drop_low [OF assms(2)]
  by simp

theorem confidence_filter_strict_witness:
  "valid_argsort insertion_argsort \<and>
   postprocess insertion_argsort 0.5 0.45
     [\<lparr>x_center = 100, y_center = 180, box_w = 40, box_h = 40, class_scores = [0.1, 0.2, 0.9]\<rparr>,
      \<lparr>x_center = 300, y_center = 280, box_w = 60, box_h = 40, class_scores = [0.7, 0.2, 0.1]\<rparr>,
      \<lparr>x_center = 500, y_center = 380, box_w = 20, box_h = 20, class_scores = [0.1, 0.2, 0.5]\<rparr>]
     \<lparr>original_w = 640, original_h = 480, pad_x = 0, pad_y = 80, scale = 1\<rparr> None =
   Inr [(''car'', 0.9, 80, 80, 120, 120), (''person'', 0.7, 270, 180, 330, 220)] \<and>
   postprocess insertion_argsort 0.5 0.45
     (filter (\<lambda>p. 0.5 < np_max (class_scores p))
     [\<lparr>x_center = 100, y_center = 180, box_w = 40, box_h = 40, class_scores = [0.1, 0.2, 0.9]\<rparr>,
      \<lparr>x_center = 300, y_center = 280, box_w = 60, box_h = 40, class_scores = [0.7, 0.2, 0.1]\<rparr>,
      \<lparr>x_center = 500, y_center = 380, box_w = 20, box_h = 20, class_scores = [0.1, 0.2, 0.5]\<rparr>])
     \<lparr>original_w = 640, original_h = 480, pad_x = 0, pad_y = 80, scale = 1\<rparr> None =
   Inr [(''car'', 0.9, 80, 80, 120, 120), (''person'', 0.7, 270, 180, 330, 220)]"
  using valid_argsort_insertion postprocess_example
    confidence_filter_strict [OF valid_argsort_insertion postprocess_example]
  by blast

text \<open>
  A candidate whose confidence equals the threshold \<open>0.5\<close> does not pass the filter.
\<close>

theorem confidence_filter_boundary_counterexample:
  "np_max (class_scores
     \<lparr>x_center = 500, y_center = 380, box_w = 20, box_h = 20,
      class_scores = [0.1, 0.2, 0.5]\<rparr>) \<ge> 0.5 \<and>
   compress (confidence_mask 0.5 (map (\<lambda>p. np_max (class_scores p))
     [\<lparr>x_center = 500, y_center = 380, box_w = 20, box_h = 20,
       class_scores = [0.1, 0.2, 0.5]\<rparr>]))
     [\<lparr>x_center = 500, y_center = 380, box_w = 20, box_h = 20,
       class_scores = [0.1, 0.2, 0.5]\<rparr>] = [] \<and>
   postprocess insertion_argsort 0.5 0.45
     [\<lparr>x_center = 500, y_center = 380, box_w = 20, box_h = 20,
       class_scores = [0.1, 0.2, 0.5]\<rparr>]
     \<lparr>original_w = 640, original_h = 480, pad_x = 0, pad_y = 80, scale = 1\<rparr> None = Inr []"
  by (simp add: postprocess_def Let_def compress_def confidence_mask_def np_max_def)





text \<open>
  C5 (as the code has it).  Running \<open>_nms\<close> on the boxes and scores that a first run
  kept suppresses nothing: the second run keeps every index, so its output holds the
  same boxes.  When the kept confidences are pairwise distinct the second run returns
  the indices \<open>0, 1, ...\<close> in order, that is, exactly the first output.  Among kept boxes
  of equal confidence the order of the second output is the one numpy's \<open>argsort\<close>
  gives, which the source does not fix.
\<close>

theorem nms_rerun_keeps_all:
  assumes "valid_argsort argsort"
    and "length boxes = length scores"
    and "nms argsort boxes scores iou_threshold = Inr keep"
  shows "nms argsort (take_rows keep boxes) (take_rows keep scores) iou_threshold =
           Inr (rev (argsort (take_rows keep scores))) \<and>
         mset (rev (argsort (take_rows keep scores))) = mset [0..<length keep] \<and>
         mset (take_rows (rev (argsort (take_rows keep scores))) (take_rows keep boxes)) =
           mset (take_rows keep boxes) \<and>
         (distinct (take_rows keep scores) \<longrightarrow>
            nms argsort (take_rows keep boxes) (take_rows keep scores) iou_threshold =
              Inr [0..<length keep])"
proof -
  have m: "mset (rev (argsort (take_rows keep scores))) = mset [0..<length keep]"
    using argsort_mset [OF assms(1), of "take_rows keep scores"]
    by (simp add: length_take_rows)
  have "mset (rev (argsort (take_rows keep scores))) =
        mset [0..<length (take_rows keep boxes)]"
    using m by (simp add: length_take_rows)
  then have p: "mset (take_rows (rev (argsort (take_rows keep scores))) (take_rows keep boxes)) =
           mset (take_rows keep boxes)"
    by (rule take_rows_perm)
  show ?thesis
    using nms_rerun [OF assms(1,3)] m p nms_rerun_distinct [OF assms(1,3)] by blast
qed

theorem nms_rerun_keeps_all_witness:
  "valid_argsort insertion_argsort \<and>
   length [(3,0,13,10),(0,0,10,10),(0,0,10,7),(0,3,10,10::real)] =
     length [0.9,0.8,0.7,0.6::real] \<and>
   nms insertion_argsort [(3,0,13,10),(0,0,10,10),(0,0,10,7),(0,3,10,10)]
     [0.9,0.8,0.7,0.6] 0.45 = Inr [0,2,3] \<and>
   distinct (take_rows [0,2,3] [0.9,0.8,0.7,0.6::real]) \<and>
   nms insertion_argsort (take_rows [0,2,3] [(3,0,13,10),(0,0,10,10),(0,0,10,7),(0,3,10,10)])
       (take_rows [0,2,3] [0.9,0.8,0.7,0.6]) 0.45 = Inr [0..<length [0::nat,2,3]]"
proof -
  have l: "length [(3,0,13,10),(0,0,10,10),(0,0,10,7),(0,3,10,10::real)] =
     length [0.9,0.8,0.7,0.6::real]" by simp
  have o: "rev (insertion_argsort [0.9,0.8,0.7,0.6]) = [0,1,2,3]"
    by (simp add: insertion_argsort_def upt_rec)
  have n: "nms insertion_argsort [(3,0,13,10),(0,0,10,10),(0,0,10,7),(0,3,10,10)]
             [0.9,0.8,0.7,0.6] 0.45 = Inr [0,2,3]"
    unfolding nms_def o by (simp add: suppress_def iou_vals)
  have d: "distinct (take_rows [0,2,3] [0.9,0.8,0.7,0.6::real])"
    by (simp add: take_rows_def)
  from nms_rerun_keeps_all [OF valid_argsort_insertion l n] d show ?thesis
    using valid_argsort_insertion l n by blast
qed

text \<open>
  Two disjoint boxes of equal score and an \<open>argsort\<close> that meets numpy's contract (the
  insertion sort): each run puts the box of larger index first, so the second run
  returns the first output in another order.
\<close>

theorem nms_rerun_tie_counterexample:
  "is_argsort [0.5, 0.5] (insertion_argsort [0.5, 0.5]) \<and>
   nms insertion_argsort [(0, 0, 1, 1), (5, 5, 6, 6)] [0.5, 0.5] 0.45 = Inr [1, 0] \<and>
   take_rows [1, 0] [(0, 0, 1, 1), (5, 5, 6, 6::real)] = [(5, 5, 6, 6), (0, 0, 1, 1)] \<and>
   take_rows [1, 0] [0.5, 0.5::real] = [0.5, 0.5] \<and>
   nms insertion_argsort [(5, 5, 6, 6), (0, 0, 1, 1)] [0.5, 0.5] 0.45 = Inr [1, 0] \<and>
   take_rows [1, 0] [(5, 5, 6, 6), (0, 0, 1, 1::real)] = [(0, 0, 1, 1), (5, 5, 6, 6)] \<and>
   [(0, 0, 1, 1), (5, 5, 6, 6)] \<noteq> [(5, 5, 6, 6), (0, 0, 1, 1::real)]"
proof -
  have i: "iou (5, 5, 6, 6) (0, 0, 1, 1) = Finite 0" "iou (0, 0, 1, 1) (5, 5, 6, 6) = Finite 0"
    by (simp_all add: iou_def np_divide_def intersection_def box_area_def Let_def)
  have o: "rev (insertion_argsort [0.5, 0.5]) = [1, 0]"
    by (simp add: insertion_argsort_def upt_rec)
  have a: "nms insertion_argsort [(0, 0, 1, 1), (5, 5, 6, 6)] [0.5, 0.5] 0.45 = Inr [1, 0]"
    unfolding nms_def o by (simp add: suppress_def i)
  have b: "nms insertion_argsort [(5, 5, 6, 6), (0, 0, 1, 1)] [0.5, 0.5] 0.45 = Inr [1, 0]"
    unfolding nms_def o by (simp add: suppress_def i)
  show ?thesis using a b is_argsort_insertion [of "[0.5, 0.5]"] by (simp add: take_rows_def)
qed

end
